theory Spec2Isabelle
  imports Main "HOL-Library.Word"
begin

unbundle bit_operations_syntax

section \<open>Lifecycle metadata of a MongoDB base record (basemodel.go)\<close>

subsection \<open>Values of the libraries the package builds on\<close>

text \<open>
  \<^verbatim>\<open>time.Time\<close> is an instant; the model keeps the number of nanoseconds since Go's
  zero instant, so the zero value of the type is \<open>0\<close>. \<^verbatim>\<open>t.After(u)\<close> is the strict
  order on instants.
\<close>

type_synonym byte = "8 word"

type_synonym Time = int

definition zeroTime :: Time where
  "zeroTime = 0"

definition After :: "Time \<Rightarrow> Time \<Rightarrow> bool" where
  "After t u = (u < t)"

text \<open>
  \<^verbatim>\<open>primitive.ObjectID\<close> is \<^verbatim>\<open>[12]byte\<close>: exactly twelve bytes, so a constructor with
  twelve arguments. \<^verbatim>\<open>NilObjectID\<close> is its zero value.
\<close>

datatype ObjectID =
  ObjectID byte byte byte byte byte byte byte byte byte byte byte byte

fun bytes :: "ObjectID \<Rightarrow> byte list" where
  "bytes (ObjectID b0 b1 b2 b3 b4 b5 b6 b7 b8 b9 b10 b11) =
     [b0, b1, b2, b3, b4, b5, b6, b7, b8, b9, b10, b11]"

definition NilObjectID :: ObjectID where
  "NilObjectID = ObjectID 0 0 0 0 0 0 0 0 0 0 0 0"


text \<open>
  \<^verbatim>\<open>ObjectID.Hex\<close> is \<^verbatim>\<open>hex.Encode\<close> over the twelve bytes: for every byte \<open>v\<close> the
  characters \<^verbatim>\<open>hextable[v>>4]\<close> and \<^verbatim>\<open>hextable[v&0x0f]\<close>, with
  \<^verbatim>\<open>hextable = "0123456789abcdef"\<close>. Both indices are below 16, so the lookups
  are always in range.
\<close>

definition hextable :: string where
  "hextable = ''0123456789abcdef''"

fun Encode :: "byte list \<Rightarrow> string" where
  "Encode [] = []"
| "Encode (v # src) =
     hextable ! unat (drop_bit 4 v) # hextable ! unat (v AND 0x0f) # Encode src"

definition Hex :: "ObjectID \<Rightarrow> string" where
  "Hex oid = Encode (bytes oid)"

subsection \<open>The ambient clock and the identifier generator\<close>

text \<open>
  \<^verbatim>\<open>time.Now()\<close> reads ambient state: \<open>wallclock w n\<close> is the reading that the \<open>n\<close>-th
  call of \<^verbatim>\<open>time.Now()\<close> in the process returns, whether this package makes the call or
  the generator does, and \<open>reads\<close> counts the calls made so far. Nothing is assumed about
  the sequence of readings. The generator keeps two package variables of its own: the
  five bytes \<^verbatim>\<open>processUnique\<close>, drawn once when the process starts, and the 32-bit
  \<^verbatim>\<open>objectIDCounter\<close>, which starts at a random value.
\<close>

type_synonym uint32 = "32 word"

record World =
  wallclock :: "nat \<Rightarrow> Time"
  reads :: nat
  processUnique :: "byte \<times> byte \<times> byte \<times> byte \<times> byte"
  objectIDCounter :: uint32

definition time_Now :: "World \<Rightarrow> Time \<times> World" where
  "time_Now w = (wallclock w (reads w), w\<lparr>reads := Suc (reads w)\<rparr>)"

text \<open>
  \<^verbatim>\<open>t.Unix()\<close> is the number of whole seconds since 1970, which is 62135596800 seconds
  after the zero instant. \<^verbatim>\<open>binary.BigEndian.PutUint32\<close> writes a 32-bit value as four
  bytes, the most significant first; the driver's \<^verbatim>\<open>putUint24\<close> writes the low three
  bytes of one the same way.
\<close>

definition Unix :: "Time \<Rightarrow> int" where
  "Unix t = t div 1000000000 - 62135596800"

definition PutUint32 :: "uint32 \<Rightarrow> byte \<times> byte \<times> byte \<times> byte" where
  "PutUint32 v = (ucast (drop_bit 24 v), ucast (drop_bit 16 v), ucast (drop_bit 8 v), ucast v)"

definition putUint24 :: "uint32 \<Rightarrow> byte \<times> byte \<times> byte" where
  "putUint24 v = (ucast (drop_bit 16 v), ucast (drop_bit 8 v), ucast v)"

text \<open>
  Modelled from the spec: \<^verbatim>\<open>primitive.NewObjectIDFromTimestamp\<close> belongs to the MongoDB
  driver, whose source is not among the repository's. The spec gives the scheme: a time
  component, a process discriminator and a monotonic counter, packed into the
  fixed-width 12-byte value. The widths are the driver's: \<^verbatim>\<open>uint32(timestamp.Unix())\<close>,
  the low 32 bits of the Unix seconds, big-endian in bytes 0 to 3; \<^verbatim>\<open>processUnique\<close> in
  bytes 4 to 8; and in bytes 9 to 11 the low three bytes of the value that
  \<^verbatim>\<open>atomic.AddUint32(&objectIDCounter, 1)\<close> returns, the counter after the increment.
\<close>

definition NewObjectIDFromTimestamp :: "Time \<Rightarrow> World \<Rightarrow> ObjectID \<times> World" where
  "NewObjectIDFromTimestamp timestamp w =
     (case PutUint32 (of_int (Unix timestamp)) of (t0, t1, t2, t3) \<Rightarrow>
        case processUnique w of (p0, p1, p2, p3, p4) \<Rightarrow>
          case putUint24 (objectIDCounter w + 1) of (c0, c1, c2) \<Rightarrow>
            (ObjectID t0 t1 t2 t3 p0 p1 p2 p3 p4 c0 c1 c2,
             w\<lparr>objectIDCounter := objectIDCounter w + 1\<rparr>))"

text \<open>
  Modelled from the spec: \<^verbatim>\<open>primitive.NewObjectID\<close>, of the same driver, is
  \<^verbatim>\<open>NewObjectIDFromTimestamp(time.Now())\<close>: the time component of the identifier is a
  reading of the clock that the generator takes itself.
\<close>

definition primitive_NewObjectID :: "World \<Rightarrow> ObjectID \<times> World" where
  "primitive_NewObjectID w =
     (case time_Now w of (timestamp, w1) \<Rightarrow> NewObjectIDFromTimestamp timestamp w1)"

subsection \<open>BaseCollection and its methods\<close>

text \<open>
  The two \<^verbatim>\<open>*time.Time\<close> fields are \<open>None\<close> for \<^verbatim>\<open>nil\<close>; \<^verbatim>\<open>&now\<close> points to a fresh
  variable, so it is \<open>Some now\<close>.
\<close>

record BaseCollection =
  Oid :: ObjectID
  CreatedAt :: Time
  UpdatedAt :: "Time option"
  DeletedAt :: "Time option"

text \<open>The zero value \<^verbatim>\<open>BaseCollection{}\<close>: what a freshly constructed record holds.\<close>

definition zeroBaseCollection :: BaseCollection where
  "zeroBaseCollection =
     \<lparr>Oid = NilObjectID, CreatedAt = zeroTime, UpdatedAt = None, DeletedAt = None\<rparr>"

definition SetInsertMeta :: "BaseCollection \<Rightarrow> World \<Rightarrow> BaseCollection \<times> World" where
  "SetInsertMeta b w =
     (case time_Now w of (now, w1) \<Rightarrow>
        case primitive_NewObjectID w1 of (oid, w2) \<Rightarrow>
          (b\<lparr>Oid := oid\<rparr>\<lparr>CreatedAt := now\<rparr>, w2))"

definition SetUpdateMeta :: "BaseCollection \<Rightarrow> World \<Rightarrow> BaseCollection \<times> World" where
  "SetUpdateMeta b w =
     (case time_Now w of (now, w1) \<Rightarrow> (b\<lparr>UpdatedAt := Some now\<rparr>, w1))"

definition SetDeleteMeta :: "BaseCollection \<Rightarrow> World \<Rightarrow> BaseCollection \<times> World" where
  "SetDeleteMeta b w =
     (case time_Now w of (now, w1) \<Rightarrow> (b\<lparr>DeletedAt := Some now\<rparr>, w1))"

definition IsDeleted :: "BaseCollection \<Rightarrow> bool" where
  "IsDeleted b = (DeletedAt b \<noteq> None)"

definition GetID :: "BaseCollection \<Rightarrow> string" where
  "GetID b = Hex (Oid b)"

definition GetCreatedAt :: "BaseCollection \<Rightarrow> Time" where
  "GetCreatedAt b = CreatedAt b"

definition GetUpdatedAt :: "BaseCollection \<Rightarrow> Time option" where
  "GetUpdatedAt b = UpdatedAt b"

definition GetDeletedAt :: "BaseCollection \<Rightarrow> Time option" where
  "GetDeletedAt b = DeletedAt b"

subsection \<open>Calling the methods\<close>

text \<open>
  Every method has the receiver \<^verbatim>\<open>b *BaseCollection\<close> and dereferences it, so a call on
  a \<^verbatim>\<open>nil\<close> receiver panics; that is the only way a call can fail. A call on a record
  returns the method's value with the record and the world as the call leaves them. The
  getters and \<^verbatim>\<open>IsDeleted\<close> assign nothing.
\<close>

datatype Method =
  CallSetInsertMeta | CallSetUpdateMeta | CallSetDeleteMeta | CallIsDeleted
  | CallGetID | CallGetCreatedAt | CallGetUpdatedAt | CallGetDeletedAt

datatype Result =
  Void | BoolResult bool | StringResult string | TimeResult Time | TimePtrResult "Time option"

datatype Panic = NilPointerDereference

fun invoke :: "Method \<Rightarrow> BaseCollection \<Rightarrow> World \<Rightarrow> Result \<times> BaseCollection \<times> World" where
  "invoke CallSetInsertMeta b w = (case SetInsertMeta b w of (b', w') \<Rightarrow> (Void, b', w'))"
| "invoke CallSetUpdateMeta b w = (case SetUpdateMeta b w of (b', w') \<Rightarrow> (Void, b', w'))"
| "invoke CallSetDeleteMeta b w = (case SetDeleteMeta b w of (b', w') \<Rightarrow> (Void, b', w'))"
| "invoke CallIsDeleted b w = (BoolResult (IsDeleted b), b, w)"
| "invoke CallGetID b w = (StringResult (GetID b), b, w)"
| "invoke CallGetCreatedAt b w = (TimeResult (GetCreatedAt b), b, w)"
| "invoke CallGetUpdatedAt b w = (TimePtrResult (GetUpdatedAt b), b, w)"
| "invoke CallGetDeletedAt b w = (TimePtrResult (GetDeletedAt b), b, w)"

fun call :: "Method \<Rightarrow> BaseCollection option \<Rightarrow> World
    \<Rightarrow> Panic + (Result \<times> BaseCollection \<times> World)" where
  "call m None w = Inl NilPointerDereference"
| "call m (Some b) w = Inr (invoke m b w)"

text \<open>A caller's sequence of calls on one record, in any order.\<close>

fun run :: "Method list \<Rightarrow> BaseCollection \<Rightarrow> World \<Rightarrow> BaseCollection \<times> World" where
  "run [] b w = (b, w)"
| "run (m # ms) b w = (case invoke m b w of (r, b', w') \<Rightarrow> run ms b' w')"

text \<open>
  The same through \<open>call\<close>, from a pointer that may be \<^verbatim>\<open>nil\<close>, collecting the results
  and stopping at the first panic. No call dereferences nothing: the empty sequence
  returns normally on every pointer.
\<close>

fun calls :: "Method list \<Rightarrow> BaseCollection option \<Rightarrow> World
    \<Rightarrow> Panic + (Result list \<times> BaseCollection option \<times> World)" where
  "calls [] p w = Inr ([], p, w)"
| "calls (m # ms) p w =
     (case call m p w of
        Inl e \<Rightarrow> Inl e
      | Inr (r, b', w') \<Rightarrow>
          (case calls ms (Some b') w' of
             Inl e \<Rightarrow> Inl e
           | Inr (rs, p'', w'') \<Rightarrow> Inr (r # rs, p'', w'')))"

subsection \<open>Concrete worlds\<close>

text \<open>
  Three worlds to run the model in. In the first the clock advances by ten nanoseconds
  between readings. In the second the clock answers the same reading every time, as a
  clock does while the calls fall inside one tick of its resolution. In the third the
  clock stands at the first second of 1970, the process bytes are zero and the counter
  is one step before its low 24 bits wrap around.
\<close>

definition sampleClock :: "nat \<Rightarrow> Time" where
  "sampleClock n = 1000 + 10 * int n"

definition stalledClock :: "nat \<Rightarrow> Time" where
  "stalledClock n = 1000"


definition sampleWorld :: World where
  "sampleWorld =
     \<lparr>wallclock = sampleClock, reads = 0,
      processUnique = (0xbc, 0xf8, 0x6c, 0xd7, 0x99), objectIDCounter = 0x00439000\<rparr>"

definition stalledWorld :: World where
  "stalledWorld =
     \<lparr>wallclock = stalledClock, reads = 0,
      processUnique = (0xbc, 0xf8, 0x6c, 0xd7, 0x99), objectIDCounter = 0x00439000\<rparr>"


text \<open>
  A record in the sample world after insert, update and soft delete, with the world as
  the three calls leave it.
\<close>

definition lifecycleSoFar :: "BaseCollection \<times> World" where
  "lifecycleSoFar =
     run [CallSetInsertMeta, CallSetUpdateMeta, CallSetDeleteMeta] zeroBaseCollection sampleWorld"

section \<open>Properties\<close>

subsection \<open>Hexadecimal rendering\<close>















lemma Hex_NilObjectID: "Hex NilObjectID = ''000000000000000000000000''"
  by (simp add: Hex_def NilObjectID_def hextable_def)

subsection \<open>What one call does to the record and to the world\<close>

lemma NewObjectIDFromTimestamp_world:
  "snd (NewObjectIDFromTimestamp timestamp w) = w\<lparr>objectIDCounter := objectIDCounter w + 1\<rparr>"
  by (simp add: NewObjectIDFromTimestamp_def split: prod.splits)

lemma NewObjectIDFromTimestamp_reads:
  "fst (NewObjectIDFromTimestamp timestamp (w\<lparr>reads := n\<rparr>))
     = fst (NewObjectIDFromTimestamp timestamp w)"
  by (simp add: NewObjectIDFromTimestamp_def split: prod.splits)

lemma SetInsertMeta_eq:
  "SetInsertMeta b w =
     (b\<lparr>Oid := fst (NewObjectIDFromTimestamp (wallclock w (Suc (reads w))) w),
        CreatedAt := wallclock w (reads w)\<rparr>,
      w\<lparr>reads := Suc (Suc (reads w)), objectIDCounter := objectIDCounter w + 1\<rparr>)"
proof -
  obtain oid w2 where gen:
    "NewObjectIDFromTimestamp (wallclock w (Suc (reads w))) (w\<lparr>reads := Suc (Suc (reads w))\<rparr>)
       = (oid, w2)"
    by (cases "NewObjectIDFromTimestamp (wallclock w (Suc (reads w)))
        (w\<lparr>reads := Suc (Suc (reads w))\<rparr>)") auto
  from gen have "oid = fst (NewObjectIDFromTimestamp (wallclock w (Suc (reads w))) w)"
    using NewObjectIDFromTimestamp_reads
      [where timestamp = "wallclock w (Suc (reads w))" and w = w and n = "Suc (Suc (reads w))"]
    by simp
  moreover from gen
  have "w2 = w\<lparr>reads := Suc (Suc (reads w)), objectIDCounter := objectIDCounter w + 1\<rparr>"
    using NewObjectIDFromTimestamp_world
      [where timestamp = "wallclock w (Suc (reads w))"
        and w = "w\<lparr>reads := Suc (Suc (reads w))\<rparr>"]
    by simp
  ultimately show ?thesis
    by (simp add: SetInsertMeta_def time_Now_def primitive_NewObjectID_def gen)
qed

lemma SetUpdateMeta_eq:
  "SetUpdateMeta b w =
     (b\<lparr>UpdatedAt := Some (wallclock w (reads w))\<rparr>, w\<lparr>reads := Suc (reads w)\<rparr>)"
  by (simp add: SetUpdateMeta_def time_Now_def)

lemma SetDeleteMeta_eq:
  "SetDeleteMeta b w =
     (b\<lparr>DeletedAt := Some (wallclock w (reads w))\<rparr>, w\<lparr>reads := Suc (reads w)\<rparr>)"
  by (simp add: SetDeleteMeta_def time_Now_def)

lemmas method_eqs = SetInsertMeta_eq SetUpdateMeta_eq SetDeleteMeta_eq

lemma invoke_oracles:
  "wallclock (snd (snd (invoke m b w))) = wallclock w \<and>
   processUnique (snd (snd (invoke m b w))) = processUnique w"
  by (cases m) (simp_all add: method_eqs)


lemma invoke_identity:
  "m \<noteq> CallSetInsertMeta \<Longrightarrow>
   Oid (fst (snd (invoke m b w))) = Oid b \<and> CreatedAt (fst (snd (invoke m b w))) = CreatedAt b"
  by (cases m) (simp_all add: method_eqs)

lemma invoke_present:
  "(UpdatedAt b \<noteq> None \<longrightarrow> UpdatedAt (fst (snd (invoke m b w))) \<noteq> None) \<and>
   (DeletedAt b \<noteq> None \<longrightarrow> DeletedAt (fst (snd (invoke m b w))) \<noteq> None)"
  by (cases m) (simp_all add: method_eqs)

subsection \<open>Sequences of calls\<close>

lemma run_Cons:
  "run (m # ms) b w = run ms (fst (snd (invoke m b w))) (snd (snd (invoke m b w)))"
  by (simp add: case_prod_beta)

lemma run_oracles:
  "wallclock (snd (run ms b w)) = wallclock w \<and>
   processUnique (snd (run ms b w)) = processUnique w"
proof (induction ms arbitrary: b w)
  case Nil
  show ?case by simp
next
  case (Cons m ms)
  show ?case unfolding run_Cons by (simp add: Cons.IH invoke_oracles)
qed


lemma run_present:
  "(UpdatedAt b \<noteq> None \<longrightarrow> UpdatedAt (fst (run ms b w)) \<noteq> None) \<and>
   (DeletedAt b \<noteq> None \<longrightarrow> DeletedAt (fst (run ms b w)) \<noteq> None)"
proof (induction ms arbitrary: b w)
  case Nil
  show ?case by simp
next
  case (Cons m ms)
  show ?case unfolding run_Cons
    using invoke_present [where b = b and m = m and w = w]
      Cons.IH [where b = "fst (snd (invoke m b w))" and w = "snd (snd (invoke m b w))"]
    by blast
qed

subsection \<open>The bytes of a generated identifier\<close>

lemma byte_of_take_bit:
  "k + 8 \<le> n \<Longrightarrow> (ucast (drop_bit k (take_bit n v)) :: byte) = ucast (drop_bit k (v :: uint32))"
  by (rule bit_eqI) (auto simp add: bit_simps)

lemma putUint24_take_bit: "putUint24 (take_bit 24 v) = putUint24 v"
  using byte_of_take_bit [of 16 24 v] byte_of_take_bit [of 8 24 v] byte_of_take_bit [of 0 24 v]
  by (simp add: putUint24_def)

lemma bit_from_byte:
  "(ucast (drop_bit k a) :: byte) = ucast (drop_bit k (b :: uint32)) \<Longrightarrow>
   k \<le> n \<Longrightarrow> n < k + 8 \<Longrightarrow> bit a n = bit b n"
proof -
  assume eq: "(ucast (drop_bit k a) :: byte) = ucast (drop_bit k b)" and "k \<le> n" "n < k + 8"
  then obtain j where j: "n = k + j" "j < 8" by (metis add_less_cancel_left le_Suc_ex)
  from eq have "bit (ucast (drop_bit k a) :: byte) j = bit (ucast (drop_bit k b) :: byte) j"
    by simp
  with j show ?thesis by (simp add: bit_simps)
qed

lemma putUint24_eq_iff: "(putUint24 a = putUint24 b) = (take_bit 24 a = take_bit 24 b)"
proof
  assume "take_bit 24 a = take_bit 24 b"
  then have "putUint24 (take_bit 24 a) = putUint24 (take_bit 24 b)" by simp
  then show "putUint24 a = putUint24 b" by (simp only: putUint24_take_bit)
next
  assume eq: "putUint24 a = putUint24 b"
  then have hi: "(ucast (drop_bit 16 a) :: byte) = ucast (drop_bit 16 b)"
    and mid: "(ucast (drop_bit 8 a) :: byte) = ucast (drop_bit 8 b)"
    and lo: "(ucast (drop_bit 0 a) :: byte) = ucast (drop_bit 0 b)"
    by (simp_all add: putUint24_def)
  show "take_bit 24 a = take_bit 24 b"
  proof (rule bit_eqI)
    fix n
    show "bit (take_bit 24 a) n = bit (take_bit 24 b) n"
    proof (cases "n < 24")
      case False
      then show ?thesis by (simp add: bit_simps)
    next
      case True
      then consider "n < 8" | "8 \<le> n" "n < 16" | "16 \<le> n" "n < 24" by linarith
      then have "bit a n = bit b n"
      proof cases
        case 1
        then show ?thesis using bit_from_byte [OF lo, of n] by simp
      next
        case 2
        then show ?thesis using bit_from_byte [OF mid, of n] by simp
      next
        case 3
        then show ?thesis using bit_from_byte [OF hi, of n] by simp
      qed
      then show ?thesis by (simp add: bit_simps)
    qed
  qed
qed

lemma PutUint32_inj: "PutUint32 a = PutUint32 b \<Longrightarrow> a = b"
proof -
  assume eq: "PutUint32 a = PutUint32 b"
  then have b3: "(ucast (drop_bit 24 a) :: byte) = ucast (drop_bit 24 b)"
    and b2: "(ucast (drop_bit 16 a) :: byte) = ucast (drop_bit 16 b)"
    and b1: "(ucast (drop_bit 8 a) :: byte) = ucast (drop_bit 8 b)"
    and b0: "(ucast (drop_bit 0 a) :: byte) = ucast (drop_bit 0 b)"
    by (simp_all add: PutUint32_def)
  show "a = b"
  proof (rule bit_eqI)
    fix n
    assume "possible_bit TYPE(uint32) n"
    then have "n < 32" by (simp add: possible_bit_def)
    then consider "n < 8" | "8 \<le> n" "n < 16" | "16 \<le> n" "n < 24" | "24 \<le> n" "n < 32"
      by linarith
    then show "bit a n = bit b n"
    proof cases
      case 1
      then show ?thesis using bit_from_byte [OF b0, of n] by simp
    next
      case 2
      then show ?thesis using bit_from_byte [OF b1, of n] by simp
    next
      case 3
      then show ?thesis using bit_from_byte [OF b2, of n] by simp
    next
      case 4
      then show ?thesis using bit_from_byte [OF b3, of n] by simp
    qed
  qed
qed





lemma NewObjectIDFromTimestamp_eq_iff:
  "(fst (NewObjectIDFromTimestamp t w) = fst (NewObjectIDFromTimestamp t' w')) =
   ((of_int (Unix t) :: uint32) = of_int (Unix t') \<and>
    processUnique w = processUnique w' \<and>
    take_bit 24 (objectIDCounter w + 1) = take_bit 24 (objectIDCounter w' + 1))"
proof -
  have "(fst (NewObjectIDFromTimestamp t w) = fst (NewObjectIDFromTimestamp t' w')) =
    (PutUint32 (of_int (Unix t)) = PutUint32 (of_int (Unix t')) \<and>
     processUnique w = processUnique w' \<and>
     putUint24 (objectIDCounter w + 1) = putUint24 (objectIDCounter w' + 1))"
    by (auto simp add: NewObjectIDFromTimestamp_def split: prod.splits)
  then show ?thesis
    using PutUint32_inj [of "of_int (Unix t)" "of_int (Unix t')"]
    by (auto simp only: putUint24_eq_iff)
qed


lemma NewObjectIDFromTimestamp_cong:
  "processUnique w = processUnique w' \<Longrightarrow> objectIDCounter w = objectIDCounter w' \<Longrightarrow>
   fst (NewObjectIDFromTimestamp t w) = fst (NewObjectIDFromTimestamp t w')"
  by (simp add: NewObjectIDFromTimestamp_eq_iff)




subsection \<open>The identifier and the creation time\<close>

text \<open>
  C1: whatever the record holds, and so in particular once \<^verbatim>\<open>SetInsertMeta\<close> has set
  \<open>Oid\<close> and \<open>CreatedAt\<close>, a sequence of calls of any length that does not call
  \<^verbatim>\<open>SetInsertMeta\<close> again (calls of \<^verbatim>\<open>SetUpdateMeta\<close>, \<^verbatim>\<open>SetDeleteMeta\<close>,
  \<^verbatim>\<open>IsDeleted\<close> and the four getters, in any order) leaves \<open>Oid\<close> and \<open>CreatedAt\<close> as
  they were.
\<close>

theorem identity_fields_frozen:
  "CallSetInsertMeta \<notin> set ms \<Longrightarrow>
   Oid (fst (run ms b w)) = Oid b \<and> CreatedAt (fst (run ms b w)) = CreatedAt b"
proof (induction ms arbitrary: b w)
  case Nil
  show ?case by simp
next
  case (Cons m ms)
  from Cons.prems have m: "m \<noteq> CallSetInsertMeta" and ms: "CallSetInsertMeta \<notin> set ms"
    by auto
  show ?case unfolding run_Cons
    using invoke_identity [OF m, where b = b and w = w] Cons.IH [OF ms] by simp
qed

text \<open>
  An inserted record that is then updated, read, soft-deleted and tested keeps the
  identifier and the creation time the insert gave it.
\<close>

theorem identity_fields_frozen_witness:
  "CallSetInsertMeta \<notin> set [CallSetUpdateMeta, CallGetID, CallSetDeleteMeta, CallIsDeleted]
   \<and> Oid (fst (run [CallSetUpdateMeta, CallGetID, CallSetDeleteMeta, CallIsDeleted]
        (fst (SetInsertMeta zeroBaseCollection sampleWorld))
        (snd (SetInsertMeta zeroBaseCollection sampleWorld))))
     = ObjectID 0x88 0x6e 0x09 0x00 0xbc 0xf8 0x6c 0xd7 0x99 0x43 0x90 0x01
   \<and> CreatedAt (fst (run [CallSetUpdateMeta, CallGetID, CallSetDeleteMeta, CallIsDeleted]
        (fst (SetInsertMeta zeroBaseCollection sampleWorld))
        (snd (SetInsertMeta zeroBaseCollection sampleWorld))))
     = 1000"
proof -
  have h: "CallSetInsertMeta \<notin> set [CallSetUpdateMeta, CallGetID, CallSetDeleteMeta, CallIsDeleted]"
    by simp
  show ?thesis
    using h identity_fields_frozen [OF h,
        where b = "fst (SetInsertMeta zeroBaseCollection sampleWorld)"
        and w = "snd (SetInsertMeta zeroBaseCollection sampleWorld)"]
    by (simp add: SetInsertMeta_eq NewObjectIDFromTimestamp_def PutUint32_def putUint24_def
        Unix_def sampleWorld_def sampleClock_def)
qed

subsection \<open>The setters of the optional timestamps\<close>

text \<open>
  C2: on every record, \<^verbatim>\<open>SetUpdateMeta\<close> stores the reading of the clock at the call,
  present, in \<open>UpdatedAt\<close>, and leaves \<open>Oid\<close>, \<open>CreatedAt\<close> and \<open>DeletedAt\<close> as they
  were; the call returns without a panic.
\<close>

theorem SetUpdateMeta_frame:
  "UpdatedAt (fst (SetUpdateMeta b w)) = Some (fst (time_Now w)) \<and>
   fst (time_Now w) = wallclock w (reads w) \<and>
   Oid (fst (SetUpdateMeta b w)) = Oid b \<and>
   CreatedAt (fst (SetUpdateMeta b w)) = CreatedAt b \<and>
   DeletedAt (fst (SetUpdateMeta b w)) = DeletedAt b \<and>
   call CallSetUpdateMeta (Some b) w = Inr (Void, SetUpdateMeta b w)"
  by (simp add: SetUpdateMeta_eq time_Now_def)

text \<open>
  C3: on every record, \<^verbatim>\<open>SetDeleteMeta\<close> stores the reading of the clock at the call,
  present, in \<open>DeletedAt\<close>, and leaves \<open>Oid\<close>, \<open>CreatedAt\<close> and \<open>UpdatedAt\<close> as they
  were, whether or not \<open>DeletedAt\<close> was present before. Called again on the record
  it has just marked deleted, it returns without a panic as well and \<open>DeletedAt\<close>
  holds the next reading of the clock.
\<close>

theorem SetDeleteMeta_frame:
  "(case SetDeleteMeta b w of (b1, w1) \<Rightarrow>
      DeletedAt b1 = Some (wallclock w (reads w)) \<and>
      Oid b1 = Oid b \<and> CreatedAt b1 = CreatedAt b \<and> UpdatedAt b1 = UpdatedAt b \<and>
      call CallSetDeleteMeta (Some b) w = Inr (Void, b1, w1) \<and>
      fst (SetDeleteMeta (b\<lparr>DeletedAt := Some t\<rparr>) w) = b1 \<and>
      (case SetDeleteMeta b1 w1 of (b2, w2) \<Rightarrow>
         DeletedAt b2 = Some (wallclock w (Suc (reads w))) \<and>
         Oid b2 = Oid b \<and> CreatedAt b2 = CreatedAt b \<and> UpdatedAt b2 = UpdatedAt b \<and>
         call CallSetDeleteMeta (Some b1) w1 = Inr (Void, b2, w2)))"
  by (simp add: SetDeleteMeta_eq)

subsection \<open>The soft-delete marker and the fresh record\<close>

text \<open>
  C4: \<^verbatim>\<open>IsDeleted\<close> is true exactly when \<open>DeletedAt\<close> is present. Nothing else in the
  record takes part: changing the three other fields does not change the answer.
\<close>

theorem IsDeleted_iff_DeletedAt_present:
  "IsDeleted b = (\<exists>t. DeletedAt b = Some t) \<and>
   IsDeleted b = (GetDeletedAt b \<noteq> None) \<and>
   IsDeleted (b\<lparr>Oid := oid, CreatedAt := c, UpdatedAt := u\<rparr>) = IsDeleted b"
  by (simp add: IsDeleted_def GetDeletedAt_def)

text \<open>
  C5: on the zero value of the record, \<^verbatim>\<open>GetID\<close> is the string of 24 zeros,
  \<^verbatim>\<open>GetCreatedAt\<close> the zero time, \<^verbatim>\<open>GetUpdatedAt\<close> and \<^verbatim>\<open>GetDeletedAt\<close> are
  \<^verbatim>\<open>nil\<close>, and \<^verbatim>\<open>IsDeleted\<close> is false.
\<close>

theorem fresh_record_getters:
  "GetID zeroBaseCollection = ''000000000000000000000000'' \<and>
   GetCreatedAt zeroBaseCollection = zeroTime \<and>
   GetUpdatedAt zeroBaseCollection = None \<and>
   GetDeletedAt zeroBaseCollection = None \<and>
   IsDeleted zeroBaseCollection = False"
  by (simp add: GetID_def GetCreatedAt_def GetUpdatedAt_def GetDeletedAt_def IsDeleted_def
      zeroBaseCollection_def Hex_NilObjectID)

subsection \<open>Insert on a record that already has optional timestamps\<close>

text \<open>
  C10: on every record, \<^verbatim>\<open>SetInsertMeta\<close> leaves \<open>UpdatedAt\<close> and \<open>DeletedAt\<close> as they
  were, present or not, so \<^verbatim>\<open>IsDeleted\<close> answers as before; a record that
  \<^verbatim>\<open>SetDeleteMeta\<close> has marked is still deleted after \<^verbatim>\<open>SetInsertMeta\<close>. On the zero
  value both timestamps are absent after the insert.
\<close>

theorem SetInsertMeta_keeps_optional_timestamps:
  "UpdatedAt (fst (SetInsertMeta b w)) = UpdatedAt b \<and>
   DeletedAt (fst (SetInsertMeta b w)) = DeletedAt b \<and>
   IsDeleted (fst (SetInsertMeta b w)) = IsDeleted b \<and>
   IsDeleted (fst (SetInsertMeta (fst (SetDeleteMeta b w0)) w)) = True \<and>
   UpdatedAt (fst (SetInsertMeta zeroBaseCollection w)) = None \<and>
   DeletedAt (fst (SetInsertMeta zeroBaseCollection w)) = None"
  by (simp add: method_eqs IsDeleted_def zeroBaseCollection_def)

subsection \<open>No call on a record fails\<close>

lemma calls_run:
  "\<exists>rs. calls ms (Some b) w = Inr (rs, Some (fst (run ms b w)), snd (run ms b w)) \<and>
     length rs = length ms"
proof (induction ms arbitrary: b w)
  case Nil
  show ?case by simp
next
  case (Cons m ms)
  obtain r b' w' where step: "invoke m b w = (r, b', w')"
    by (cases "invoke m b w") auto
  from Cons.IH [where b = b' and w = w'] obtain rs
    where rest: "calls ms (Some b') w' = Inr (rs, Some (fst (run ms b' w')), snd (run ms b' w'))"
      and len: "length rs = length ms"
    by blast
  show ?case
  proof (intro exI conjI)
    show "calls (m # ms) (Some b) w
        = Inr (r # rs, Some (fst (run (m # ms) b w)), snd (run (m # ms) b w))"
      by (simp add: step rest)
    show "length (r # rs) = length (m # ms)" by (simp add: len)
  qed
qed

text \<open>
  C9: each of the eight methods, called on any record in any world, returns a value and
  never the panic; so does every sequence of calls, whatever its order, with one result
  for each call. \<^verbatim>\<open>SetUpdateMeta\<close> and \<^verbatim>\<open>SetDeleteMeta\<close> on a record that was never
  inserted return normally and set their timestamp on the zero value.
\<close>

theorem calls_on_a_record_never_fail:
  "(\<exists>r b' w'. call m (Some b) w = Inr (r, b', w')) \<and>
   (\<exists>rs. calls ms (Some b) w = Inr (rs, Some (fst (run ms b w)), snd (run ms b w)) \<and>
      length rs = length ms) \<and>
   call CallSetUpdateMeta (Some zeroBaseCollection) w =
     Inr (Void, zeroBaseCollection\<lparr>UpdatedAt := Some (wallclock w (reads w))\<rparr>,
          w\<lparr>reads := Suc (reads w)\<rparr>) \<and>
   call CallSetDeleteMeta (Some zeroBaseCollection) w =
     Inr (Void, zeroBaseCollection\<lparr>DeletedAt := Some (wallclock w (reads w))\<rparr>,
          w\<lparr>reads := Suc (reads w)\<rparr>)"
proof (intro conjI)
  show "\<exists>r b' w'. call m (Some b) w = Inr (r, b', w')"
    by (cases "invoke m b w") simp
  show "\<exists>rs. calls ms (Some b) w = Inr (rs, Some (fst (run ms b w)), snd (run ms b w)) \<and>
      length rs = length ms"
    by (rule calls_run)
qed (simp_all add: method_eqs)

subsection \<open>The identifier as a string\<close>







subsection \<open>Insert regenerates the identifier and the creation time\<close>






subsection \<open>The optional timestamps are kept, and refreshed by their setters\<close>

text \<open>
  A timestamp that is a reading the clock has already given stays one through every
  call.
\<close>

lemma invoke_stamped:
  "i < reads w \<Longrightarrow> UpdatedAt b = Some (wallclock w i) \<Longrightarrow>
   \<exists>j < reads (snd (snd (invoke m b w))).
      UpdatedAt (fst (snd (invoke m b w))) = Some (wallclock w j)"
  by (cases m) (auto simp add: method_eqs intro: less_SucI)

lemma invoke_stamped_deleted:
  "i < reads w \<Longrightarrow> DeletedAt b = Some (wallclock w i) \<Longrightarrow>
   \<exists>j < reads (snd (snd (invoke m b w))).
      DeletedAt (fst (snd (invoke m b w))) = Some (wallclock w j)"
  by (cases m) (auto simp add: method_eqs intro: less_SucI)

lemma run_stamped:
  "i < reads w \<Longrightarrow> UpdatedAt b = Some (wallclock w i) \<Longrightarrow>
   \<exists>j < reads (snd (run ms b w)). UpdatedAt (fst (run ms b w)) = Some (wallclock w j)"
proof (induction ms arbitrary: i b w)
  case Nil
  then show ?case by auto
next
  case (Cons m ms)
  from invoke_stamped [OF Cons.prems, where m = m] obtain j
    where j: "j < reads (snd (snd (invoke m b w)))"
      and at: "UpdatedAt (fst (snd (invoke m b w))) = Some (wallclock w j)"
    by blast
  have same: "wallclock (snd (snd (invoke m b w))) = wallclock w"
    by (simp add: invoke_oracles)
  from at have "UpdatedAt (fst (snd (invoke m b w)))
      = Some (wallclock (snd (snd (invoke m b w))) j)"
    by (simp only: same)
  from Cons.IH [OF j this] show ?case
    unfolding run_Cons by (simp only: same)
qed

lemma run_stamped_deleted:
  "i < reads w \<Longrightarrow> DeletedAt b = Some (wallclock w i) \<Longrightarrow>
   \<exists>j < reads (snd (run ms b w)). DeletedAt (fst (run ms b w)) = Some (wallclock w j)"
proof (induction ms arbitrary: i b w)
  case Nil
  then show ?case by auto
next
  case (Cons m ms)
  from invoke_stamped_deleted [OF Cons.prems, where m = m] obtain j
    where j: "j < reads (snd (snd (invoke m b w)))"
      and at: "DeletedAt (fst (snd (invoke m b w))) = Some (wallclock w j)"
    by blast
  have same: "wallclock (snd (snd (invoke m b w))) = wallclock w"
    by (simp add: invoke_oracles)
  from at have "DeletedAt (fst (snd (invoke m b w)))
      = Some (wallclock (snd (snd (invoke m b w))) j)"
    by (simp only: same)
  from Cons.IH [OF j this] show ?case
    unfolding run_Cons by (simp only: same)
qed

lemma refreshed_after_run:
  assumes clock: "\<forall>i j. i < j \<longrightarrow> After (wallclock w j) (wallclock w i)"
    and i: "i < reads w"
  shows "UpdatedAt b = Some (wallclock w i) \<longrightarrow>
      (\<exists>t t'. UpdatedAt (fst (run ms b w)) = Some t \<and>
         UpdatedAt (fst (SetUpdateMeta (fst (run ms b w)) (snd (run ms b w)))) = Some t' \<and>
         After t' t)"
    and "DeletedAt b = Some (wallclock w i) \<longrightarrow>
      (\<exists>t t'. DeletedAt (fst (run ms b w)) = Some t \<and>
         DeletedAt (fst (SetDeleteMeta (fst (run ms b w)) (snd (run ms b w)))) = Some t' \<and>
         After t' t)"
proof -
  have same: "wallclock (snd (run ms b w)) = wallclock w" by (simp add: run_oracles)
  show "UpdatedAt b = Some (wallclock w i) \<longrightarrow>
      (\<exists>t t'. UpdatedAt (fst (run ms b w)) = Some t \<and>
         UpdatedAt (fst (SetUpdateMeta (fst (run ms b w)) (snd (run ms b w)))) = Some t' \<and>
         After t' t)"
  proof
    assume "UpdatedAt b = Some (wallclock w i)"
    from run_stamped [OF i this, where ms = ms] obtain j
      where j: "j < reads (snd (run ms b w))"
        and at: "UpdatedAt (fst (run ms b w)) = Some (wallclock w j)" by blast
    from clock j have "After (wallclock w (reads (snd (run ms b w)))) (wallclock w j)" by blast
    with at show "\<exists>t t'. UpdatedAt (fst (run ms b w)) = Some t \<and>
         UpdatedAt (fst (SetUpdateMeta (fst (run ms b w)) (snd (run ms b w)))) = Some t' \<and>
         After t' t"
      by (simp add: SetUpdateMeta_eq same)
  qed
  show "DeletedAt b = Some (wallclock w i) \<longrightarrow>
      (\<exists>t t'. DeletedAt (fst (run ms b w)) = Some t \<and>
         DeletedAt (fst (SetDeleteMeta (fst (run ms b w)) (snd (run ms b w)))) = Some t' \<and>
         After t' t)"
  proof
    assume "DeletedAt b = Some (wallclock w i)"
    from run_stamped_deleted [OF i this, where ms = ms] obtain j
      where j: "j < reads (snd (run ms b w))"
        and at: "DeletedAt (fst (run ms b w)) = Some (wallclock w j)" by blast
    from clock j have "After (wallclock w (reads (snd (run ms b w)))) (wallclock w j)" by blast
    with at show "\<exists>t t'. DeletedAt (fst (run ms b w)) = Some t \<and>
         DeletedAt (fst (SetDeleteMeta (fst (run ms b w)) (snd (run ms b w)))) = Some t' \<and>
         After t' t"
      by (simp add: SetDeleteMeta_eq same)
  qed
qed

lemma lifecycleSoFar_eq:
  "lifecycleSoFar =
     (\<lparr>Oid = ObjectID 0x88 0x6e 0x09 0x00 0xbc 0xf8 0x6c 0xd7 0x99 0x43 0x90 0x01,
       CreatedAt = 1000, UpdatedAt = Some 1020, DeletedAt = Some 1030\<rparr>,
      \<lparr>wallclock = sampleClock, reads = 4,
       processUnique = (0xbc, 0xf8, 0x6c, 0xd7, 0x99), objectIDCounter = 0x00439001\<rparr>)"
  by (simp add: lifecycleSoFar_def method_eqs NewObjectIDFromTimestamp_def PutUint32_def
      putUint24_def Unix_def zeroBaseCollection_def sampleWorld_def sampleClock_def)

text \<open>
  C7, as the code has it: once \<open>UpdatedAt\<close> (respectively \<open>DeletedAt\<close>) is present, no
  sequence of calls makes it absent again, and every call of \<^verbatim>\<open>SetUpdateMeta\<close>
  (respectively \<^verbatim>\<open>SetDeleteMeta\<close>) overwrites it with the reading of the clock at that
  call. The new timestamp is newer than the one the field held when that reading is
  after it; this is so at every repeated call, after any calls in between, when the
  clock advances strictly from each reading to the next and the field held an earlier
  reading of it.
\<close>

theorem optional_timestamps_kept_and_refreshed:
  "(UpdatedAt b \<noteq> None \<longrightarrow> UpdatedAt (fst (run ms b w)) \<noteq> None) \<and>
   (DeletedAt b \<noteq> None \<longrightarrow> DeletedAt (fst (run ms b w)) \<noteq> None) \<and>
   UpdatedAt (fst (SetUpdateMeta b w)) = Some (wallclock w (reads w)) \<and>
   DeletedAt (fst (SetDeleteMeta b w)) = Some (wallclock w (reads w)) \<and>
   (UpdatedAt b = Some t \<and> After (wallclock w (reads w)) t \<longrightarrow>
      (\<exists>t'. UpdatedAt (fst (SetUpdateMeta b w)) = Some t' \<and> After t' t)) \<and>
   (DeletedAt b = Some u \<and> After (wallclock w (reads w)) u \<longrightarrow>
      (\<exists>u'. DeletedAt (fst (SetDeleteMeta b w)) = Some u' \<and> After u' u)) \<and>
   ((\<forall>i j. i < j \<longrightarrow> After (wallclock w j) (wallclock w i)) \<and>
    i < reads w \<and> UpdatedAt b = Some (wallclock w i) \<longrightarrow>
      (\<exists>t t'. UpdatedAt (fst (run ms b w)) = Some t \<and>
         UpdatedAt (fst (SetUpdateMeta (fst (run ms b w)) (snd (run ms b w)))) = Some t' \<and>
         After t' t)) \<and>
   ((\<forall>i j. i < j \<longrightarrow> After (wallclock w j) (wallclock w i)) \<and>
    k < reads w \<and> DeletedAt b = Some (wallclock w k) \<longrightarrow>
      (\<exists>u u'. DeletedAt (fst (run ms b w)) = Some u \<and>
         DeletedAt (fst (SetDeleteMeta (fst (run ms b w)) (snd (run ms b w)))) = Some u' \<and>
         After u' u))"
proof (intro conjI)
  show "UpdatedAt b \<noteq> None \<longrightarrow> UpdatedAt (fst (run ms b w)) \<noteq> None"
    and "DeletedAt b \<noteq> None \<longrightarrow> DeletedAt (fst (run ms b w)) \<noteq> None"
    using run_present [where b = b and ms = ms and w = w] by blast+
  show "(\<forall>i j. i < j \<longrightarrow> After (wallclock w j) (wallclock w i)) \<and>
    i < reads w \<and> UpdatedAt b = Some (wallclock w i) \<longrightarrow>
      (\<exists>t t'. UpdatedAt (fst (run ms b w)) = Some t \<and>
         UpdatedAt (fst (SetUpdateMeta (fst (run ms b w)) (snd (run ms b w)))) = Some t' \<and>
         After t' t)"
    using refreshed_after_run(1) [where w = w and i = i and b = b and ms = ms] by blast
  show "(\<forall>i j. i < j \<longrightarrow> After (wallclock w j) (wallclock w i)) \<and>
    k < reads w \<and> DeletedAt b = Some (wallclock w k) \<longrightarrow>
      (\<exists>u u'. DeletedAt (fst (run ms b w)) = Some u \<and>
         DeletedAt (fst (SetDeleteMeta (fst (run ms b w)) (snd (run ms b w)))) = Some u' \<and>
         After u' u)"
    using refreshed_after_run(2) [where w = w and i = k and b = b and ms = ms] by blast
qed (simp_all add: method_eqs)

text \<open>
  The sample clock advances strictly; the record that was inserted, updated at 1020 and
  deleted at 1030 is read, updated again and tested, and the next call of each setter
  stores a newer timestamp.
\<close>

theorem optional_timestamps_kept_and_refreshed_witness:
  "After (wallclock (snd lifecycleSoFar) 1) (wallclock (snd lifecycleSoFar) 0) \<and>
   2 < reads (snd lifecycleSoFar) \<and> 3 < reads (snd lifecycleSoFar) \<and>
   UpdatedAt (fst lifecycleSoFar) = Some (wallclock (snd lifecycleSoFar) 2) \<and>
   DeletedAt (fst lifecycleSoFar) = Some (wallclock (snd lifecycleSoFar) 3) \<and>
   UpdatedAt (fst lifecycleSoFar) = Some 1020 \<and>
   DeletedAt (fst lifecycleSoFar) = Some 1030 \<and>
   After (wallclock (snd lifecycleSoFar) (reads (snd lifecycleSoFar))) 1020 \<and>
   After (wallclock (snd lifecycleSoFar) (reads (snd lifecycleSoFar))) 1030 \<and>
   UpdatedAt (fst (run [CallGetUpdatedAt, CallSetUpdateMeta, CallIsDeleted]
      (fst lifecycleSoFar) (snd lifecycleSoFar))) = Some 1040 \<and>
   DeletedAt (fst (run [CallGetUpdatedAt, CallSetUpdateMeta, CallIsDeleted]
      (fst lifecycleSoFar) (snd lifecycleSoFar))) = Some 1030 \<and>
   (\<exists>t t'. UpdatedAt (fst (run [CallGetUpdatedAt, CallSetUpdateMeta, CallIsDeleted]
        (fst lifecycleSoFar) (snd lifecycleSoFar))) = Some t \<and>
      UpdatedAt (fst (SetUpdateMeta
        (fst (run [CallGetUpdatedAt, CallSetUpdateMeta, CallIsDeleted]
           (fst lifecycleSoFar) (snd lifecycleSoFar)))
        (snd (run [CallGetUpdatedAt, CallSetUpdateMeta, CallIsDeleted]
           (fst lifecycleSoFar) (snd lifecycleSoFar))))) = Some t' \<and>
      After t' t) \<and>
   (\<exists>u u'. DeletedAt (fst (run [CallGetUpdatedAt, CallSetUpdateMeta, CallIsDeleted]
        (fst lifecycleSoFar) (snd lifecycleSoFar))) = Some u \<and>
      DeletedAt (fst (SetDeleteMeta
        (fst (run [CallGetUpdatedAt, CallSetUpdateMeta, CallIsDeleted]
           (fst lifecycleSoFar) (snd lifecycleSoFar)))
        (snd (run [CallGetUpdatedAt, CallSetUpdateMeta, CallIsDeleted]
           (fst lifecycleSoFar) (snd lifecycleSoFar))))) = Some u' \<and>
      After u' u)"
proof -
  have clock: "\<forall>i j. i < j \<longrightarrow>
      After (wallclock (snd lifecycleSoFar) j) (wallclock (snd lifecycleSoFar) i)"
    by (simp add: lifecycleSoFar_eq sampleClock_def After_def)
  have held: "2 < reads (snd lifecycleSoFar)" "3 < reads (snd lifecycleSoFar)"
    "UpdatedAt (fst lifecycleSoFar) = Some (wallclock (snd lifecycleSoFar) 2)"
    "DeletedAt (fst lifecycleSoFar) = Some (wallclock (snd lifecycleSoFar) 3)"
    "UpdatedAt (fst lifecycleSoFar) = Some 1020"
    "DeletedAt (fst lifecycleSoFar) = Some 1030"
    by (simp_all add: lifecycleSoFar_eq sampleClock_def)
  have later: "After (wallclock (snd lifecycleSoFar) (reads (snd lifecycleSoFar))) 1020"
    "After (wallclock (snd lifecycleSoFar) (reads (snd lifecycleSoFar))) 1030"
    by (simp_all add: lifecycleSoFar_eq sampleClock_def After_def)
  have after: "UpdatedAt (fst (run [CallGetUpdatedAt, CallSetUpdateMeta, CallIsDeleted]
      (fst lifecycleSoFar) (snd lifecycleSoFar))) = Some 1040"
    "DeletedAt (fst (run [CallGetUpdatedAt, CallSetUpdateMeta, CallIsDeleted]
      (fst lifecycleSoFar) (snd lifecycleSoFar))) = Some 1030"
    by (simp_all add: lifecycleSoFar_eq method_eqs sampleClock_def)
  note inst = optional_timestamps_kept_and_refreshed
      [where b = "fst lifecycleSoFar" and w = "snd lifecycleSoFar"
        and ms = "[CallGetUpdatedAt, CallSetUpdateMeta, CallIsDeleted]"
        and t = 1020 and u = 1030 and i = 2 and k = 3]
  from inst clock held(1,3) have upd: "\<exists>t t'. UpdatedAt (fst (run [CallGetUpdatedAt, CallSetUpdateMeta, CallIsDeleted]
        (fst lifecycleSoFar) (snd lifecycleSoFar))) = Some t \<and>
      UpdatedAt (fst (SetUpdateMeta
        (fst (run [CallGetUpdatedAt, CallSetUpdateMeta, CallIsDeleted]
           (fst lifecycleSoFar) (snd lifecycleSoFar)))
        (snd (run [CallGetUpdatedAt, CallSetUpdateMeta, CallIsDeleted]
           (fst lifecycleSoFar) (snd lifecycleSoFar))))) = Some t' \<and>
      After t' t"
    by blast
  from inst clock held(2,4) have del: "\<exists>u u'. DeletedAt (fst (run [CallGetUpdatedAt, CallSetUpdateMeta, CallIsDeleted]
        (fst lifecycleSoFar) (snd lifecycleSoFar))) = Some u \<and>
      DeletedAt (fst (SetDeleteMeta
        (fst (run [CallGetUpdatedAt, CallSetUpdateMeta, CallIsDeleted]
           (fst lifecycleSoFar) (snd lifecycleSoFar)))
        (snd (run [CallGetUpdatedAt, CallSetUpdateMeta, CallIsDeleted]
           (fst lifecycleSoFar) (snd lifecycleSoFar))))) = Some u' \<and>
      After u' u"
    by blast
  from clock have "After (wallclock (snd lifecycleSoFar) 1) (wallclock (snd lifecycleSoFar) 0)"
    by simp
  from this held later after upd del show ?thesis by (intro conjI)
qed

text \<open>
  C7, as the claim states it, fails when the clock does not advance between two calls:
  two successive calls of \<^verbatim>\<open>SetUpdateMeta\<close> that read the same instant leave the
  timestamp of the first call in place, and it is not newer than itself.
\<close>

theorem SetUpdateMeta_twice_same_reading:
  "UpdatedAt (fst (run [CallSetUpdateMeta] zeroBaseCollection stalledWorld)) = Some 1000 \<and>
   UpdatedAt (fst (run [CallSetUpdateMeta, CallSetUpdateMeta] zeroBaseCollection stalledWorld))
     = Some 1000 \<and>
   \<not> After 1000 1000"
  by (simp add: method_eqs stalledWorld_def stalledClock_def After_def)

end
